theory Spec2Isabelle
  imports Complex_Main "HOL-Library.Word"
begin

section \<open>Tiles of the Mercator tiling scheme (osmium/geom/tile.hpp)\<close>

subsection \<open>Data model\<close>

text \<open>
  \<^verbatim>\<open>struct Tile { uint32_t x; uint32_t y; uint32_t z; }\<close>: three unsigned 32-bit
  fields. An \<^verbatim>\<open>int32_t\<close> is a 32-bit word as well, read in two's complement through
  \<open>sint\<close> and compared with the signed order \<open><s\<close>; the conversion between the two
  types keeps the bits.
\<close>

type_synonym uint32_t = "32 word"
type_synonym int32_t = "32 word"

record Tile =
  x :: uint32_t
  y :: uint32_t
  z :: uint32_t

text \<open>
  What can go wrong while the code runs: an \<^verbatim>\<open>assert\<close> that fails (when assertions are
  compiled in), a shift whose behaviour the language leaves undefined, a division whose
  divisor is zero, and a conversion of a \<^verbatim>\<open>double\<close> to \<^verbatim>\<open>int32_t\<close> whose truncated
  value does not fit.
\<close>

datatype error = Assertion_failed | Undefined_shift | Division_by_zero | Not_representable

subsection \<open>Shifts\<close>

text \<open>
  \<^verbatim>\<open>a << b\<close> with \<^verbatim>\<open>a\<close> of type \<^verbatim>\<open>unsigned\<close>: undefined when \<^verbatim>\<open>b\<close> is at least the
  width, otherwise the bits move left and the high ones are lost.
\<close>

definition shl_u32 :: "uint32_t \<Rightarrow> uint32_t \<Rightarrow> error + uint32_t" where
  "shl_u32 a b = (if 32 \<le> unat b then Inl Undefined_shift else Inr (push_bit (unat b) a))"

text \<open>
  \<^verbatim>\<open>a << b\<close> with \<^verbatim>\<open>a\<close> of type \<^verbatim>\<open>int\<close>: undefined when \<^verbatim>\<open>b\<close> is at least the
  width, when \<^verbatim>\<open>a\<close> is negative, and when \<open>a * 2^b\<close> is not an \<^verbatim>\<open>int\<close>.
\<close>

definition shl_i32 :: "int32_t \<Rightarrow> uint32_t \<Rightarrow> error + int32_t" where
  "shl_i32 a b =
     (if 32 \<le> unat b \<or> sint a < 0 \<or> 2 ^ 31 \<le> sint a * 2 ^ unat b
      then Inl Undefined_shift
      else Inr (push_bit (unat b) a))"

subsection \<open>The validity predicate\<close>

text \<open>
  \<^verbatim>\<open>
  bool valid() const noexcept {
      if (z > 30) { return false; }
      const uint32_t max = 1 << z;
      return x < max && y < max;
  }
  \<close>
  The shift is a parameter of \<open>valid_with\<close>, so that a theorem can say for which shift
  amounts the result depends on it; \<open>valid\<close> is the function with the shift of the
  language. The literal \<^verbatim>\<open>1\<close> is an \<^verbatim>\<open>int\<close>; the result of the shift is converted to
  \<^verbatim>\<open>uint32_t\<close>.
\<close>

definition valid_with :: "(int32_t \<Rightarrow> uint32_t \<Rightarrow> error + int32_t) \<Rightarrow> Tile \<Rightarrow> error + bool" where
  "valid_with shl t =
     (if z t > 30 then Inr False
      else case shl 1 (z t) of
             Inl e \<Rightarrow> Inl e
           | Inr m \<Rightarrow> (let max = (m :: uint32_t) in Inr (x t < max \<and> y t < max)))"

definition valid :: "Tile \<Rightarrow> error + bool" where
  "valid = valid_with shl_i32"

subsection \<open>Equality and order\<close>

text \<open>
  \<^verbatim>\<open>
  operator==: return lhs.z == rhs.z && lhs.x == rhs.x && lhs.y == rhs.y;
  operator!=: return ! (lhs == rhs);
  operator< : if (lhs.z < rhs.z) return true;
              if (lhs.z > rhs.z) return false;
              if (lhs.x < rhs.x) return true;
              if (lhs.x > rhs.x) return false;
              return lhs.y < rhs.y;
  \<close>
\<close>

definition tile_eq :: "Tile \<Rightarrow> Tile \<Rightarrow> bool" where
  "tile_eq lhs rhs \<longleftrightarrow> z lhs = z rhs \<and> x lhs = x rhs \<and> y lhs = y rhs"

definition tile_neq :: "Tile \<Rightarrow> Tile \<Rightarrow> bool" where
  "tile_neq lhs rhs \<longleftrightarrow> \<not> tile_eq lhs rhs"

definition tile_less :: "Tile \<Rightarrow> Tile \<Rightarrow> bool" where
  "tile_less lhs rhs =
     (if z lhs < z rhs then True
      else if z lhs > z rhs then False
      else if x lhs < x rhs then True
      else if x lhs > x rhs then False
      else y lhs < y rhs)"

subsection \<open>Construction from explicit coordinates\<close>

text \<open>
  \<^verbatim>\<open>
  explicit Tile(uint32_t zoom, uint32_t tx, uint32_t ty) noexcept : x(tx), y(ty), z(zoom) {
      assert(zoom <= 30u);
      assert(x < (1u << zoom));
      assert(y < (1u << zoom));
  }
  \<close>
  The flag \<open>ndebug\<close> says whether the assertions are compiled out (\<^verbatim>\<open>NDEBUG\<close>). With
  assertions, they run in order after the members are initialised, and the first one that
  fails aborts.
\<close>

definition Tile_coords :: "bool \<Rightarrow> uint32_t \<Rightarrow> uint32_t \<Rightarrow> uint32_t \<Rightarrow> error + Tile" where
  "Tile_coords ndebug zoom tx ty =
     (let t = \<lparr>x = tx, y = ty, z = zoom\<rparr> in
      if ndebug then Inr t
      else if \<not> zoom \<le> 30 then Inl Assertion_failed
      else case shl_u32 1 zoom of
             Inl e \<Rightarrow> Inl e
           | Inr m \<Rightarrow>
               if \<not> x t < m then Inl Assertion_failed
               else (case shl_u32 1 zoom of
                       Inl e \<Rightarrow> Inl e
                     | Inr m' \<Rightarrow> if \<not> y t < m' then Inl Assertion_failed else Inr t))"

subsection \<open>Arithmetic on doubles\<close>

text \<open>
  A finite \<^verbatim>\<open>double\<close> is the real number it denotes. An operation computes the exact
  result and rounds it to a double; the rounding \<open>rnd\<close> is a parameter of the platform, so
  that a theorem holds for every rounding with the properties it names. Infinities and
  NaN are not values of the model: the one way the code here could produce them from
  finite operands of moderate size, a division by zero, is an error, since each quotient
  is next converted to \<^verbatim>\<open>int32_t\<close> or used as a divisor.
\<close>

type_synonym double = real

definition fdiv :: "(real \<Rightarrow> real) \<Rightarrow> double \<Rightarrow> double \<Rightarrow> error + double" where
  "fdiv r a b = (if b = 0 then Inl Division_by_zero else Inr (r (a / b)))"

text \<open>
  \<^verbatim>\<open>int32_t(q)\<close> for a double \<^verbatim>\<open>q\<close> drops the fractional part (rounds towards zero);
  when the result is not an \<^verbatim>\<open>int32_t\<close> the behaviour is undefined.
\<close>

definition trunc :: "real \<Rightarrow> int" where
  "trunc q = (if 0 \<le> q then \<lfloor>q\<rfloor> else \<lceil>q\<rceil>)"

definition to_int32 :: "double \<Rightarrow> error + int32_t" where
  "to_int32 q =
     (if - (2 ^ 31) \<le> trunc q \<and> trunc q < 2 ^ 31 then Inr (word_of_int (trunc q))
      else Inl Not_representable)"

subsection \<open>Clamping\<close>

text \<open>
  \<^verbatim>\<open>
  template <typename T>
  inline T restrict_to_range(T value, T min, T max) {
      if (value < min) return min;
      if (value > max) return max;
      return value;
  }
  \<close>
  at its one instance in the file, \<^verbatim>\<open>T = int32_t\<close>.
\<close>

definition restrict_to_range :: "int32_t \<Rightarrow> int32_t \<Rightarrow> int32_t \<Rightarrow> int32_t" where
  "restrict_to_range v lo hi = (if v <s lo then lo else if hi <s v then hi else v)"

subsection \<open>Construction from a location\<close>

text \<open>
  The constructor uses three things that other headers declare: the predicate
  \<^verbatim>\<open>Location::valid\<close>, the projection \<^verbatim>\<open>lonlat_to_mercator\<close> and the constant
  \<^verbatim>\<open>detail::max_coordinate_epsg3857\<close>. They are fields of the platform, with the
  rounding of the double arithmetic. A \<^verbatim>\<open>Coordinates\<close> value is the pair of its
  \<^verbatim>\<open>x\<close> and \<^verbatim>\<open>y\<close>.
\<close>

record 'loc platform =
  rnd :: "real \<Rightarrow> real"
  max_coordinate_epsg3857 :: double
  location_valid :: "'loc \<Rightarrow> bool"
  lonlat_to_mercator :: "'loc \<Rightarrow> double \<times> double"

text \<open>
  \<^verbatim>\<open>
  explicit Tile(uint32_t zoom, const osmium::Location& location) : z(zoom) {
      assert(zoom <= 30u);
      assert(location.valid());
      const osmium::geom::Coordinates c = lonlat_to_mercator(location);
      const int32_t n = 1 << zoom;
      const double scale = detail::max_coordinate_epsg3857 * 2 / n;
      x = uint32_t(detail::restrict_to_range<int32_t>(
            int32_t((c.x + detail::max_coordinate_epsg3857) / scale), 0, n-1));
      y = uint32_t(detail::restrict_to_range<int32_t>(
            int32_t((detail::max_coordinate_epsg3857 - c.y) / scale), 0, n-1));
  }
  \<close>
\<close>

definition Tile_location :: "'loc platform \<Rightarrow> bool \<Rightarrow> uint32_t \<Rightarrow> 'loc \<Rightarrow> error + Tile" where
  "Tile_location P ndebug zoom location =
     (if \<not> ndebug \<and> \<not> zoom \<le> 30 then Inl Assertion_failed
      else if \<not> ndebug \<and> \<not> location_valid P location then Inl Assertion_failed
      else
        let c = lonlat_to_mercator P location;
            M = max_coordinate_epsg3857 P
        in case shl_i32 1 zoom of
             Inl e \<Rightarrow> Inl e
           | Inr n \<Rightarrow>
        (case fdiv (rnd P) (rnd P (M * 2)) (real_of_int (sint n)) of
             Inl e \<Rightarrow> Inl e
           | Inr scale \<Rightarrow>
        (case fdiv (rnd P) (rnd P (fst c + M)) scale of
             Inl e \<Rightarrow> Inl e
           | Inr qx \<Rightarrow>
        (case to_int32 qx of
             Inl e \<Rightarrow> Inl e
           | Inr ix \<Rightarrow>
        (case fdiv (rnd P) (rnd P (M - snd c)) scale of
             Inl e \<Rightarrow> Inl e
           | Inr qy \<Rightarrow>
        (case to_int32 qy of
             Inl e \<Rightarrow> Inl e
           | Inr iy \<Rightarrow>
               Inr \<lparr>x = restrict_to_range ix 0 (n - 1),
                    y = restrict_to_range iy 0 (n - 1),
                    z = zoom\<rparr>))))))"

text \<open>
  The properties of the rounding that the theorems about this constructor use: it is
  monotone, it keeps every integer of magnitude up to \<open>2^31\<close> (each is a double), and it
  keeps the quotient of a double of magnitude at least 1 by \<open>2^k\<close>, \<open>k \<le> 30\<close> (only the
  exponent changes). Exact arithmetic has them, and so has the rounding of binary64
  defined below.
\<close>

definition rounds_like_double :: "(real \<Rightarrow> real) \<Rightarrow> bool" where
  "rounds_like_double r \<longleftrightarrow>
     (\<forall>a b. a \<le> b \<longrightarrow> r a \<le> r b) \<and>
     (\<forall>i::int. \<bar>i\<bar> \<le> 2 ^ 31 \<longrightarrow> r (of_int i) = of_int i) \<and>
     (\<forall>a k. 1 \<le> a \<longrightarrow> k \<le> (30::nat) \<longrightarrow> r (r a / 2 ^ k) = r a / 2 ^ k)"

text \<open>
  Modelled from the spec: \<^verbatim>\<open>lonlat_to_mercator\<close> and \<^verbatim>\<open>Location::valid\<close> are defined in
  mercator_projection.hpp and location.hpp, not in tile.hpp. The specification says of
  the projection that it "must return coordinates within a known, fixed symmetric bound
  \<open>[-M, M]\<close> for any valid input location". A platform is in order when its projection
  does so, its rounding has the properties above and its constant \<open>M\<close> is at least 1 (in
  libosmium it is 20037508.34).
\<close>

definition platform_ok :: "'loc platform \<Rightarrow> bool" where
  "platform_ok P \<longleftrightarrow>
     rounds_like_double (rnd P) \<and>
     1 \<le> max_coordinate_epsg3857 P \<and>
     (\<forall>l. location_valid P l \<longrightarrow>
        \<bar>fst (lonlat_to_mercator P l)\<bar> \<le> max_coordinate_epsg3857 P \<and>
        \<bar>snd (lonlat_to_mercator P l)\<bar> \<le> max_coordinate_epsg3857 P)"

subsection \<open>The rounding of binary64\<close>

text \<open>
  Round to nearest, ties to even, with 53 significant bits and no bound on the exponent:
  the rounding of IEEE 754 binary64 wherever nothing overflows or underflows. \<open>rte\<close>
  rounds a real to the nearest integer, \<open>binade v\<close> is the exponent of \<open>v\<close> and
  \<open>ulp v\<close> the distance between neighbouring doubles there.
\<close>

definition rte :: "real \<Rightarrow> int" where
  "rte v = (let f = \<lfloor>v\<rfloor> in
            if v - of_int f < 1/2 then f
            else if 1/2 < v - of_int f then f + 1
            else if even f then f else f + 1)"

definition binade :: "real \<Rightarrow> int" where
  "binade v = \<lfloor>log 2 \<bar>v\<bar>\<rfloor>"

definition ulp :: "real \<Rightarrow> real" where
  "ulp v = 2 powr (of_int (binade v) - 52)"

definition round53 :: "real \<Rightarrow> real" where
  "round53 v = (if v = 0 then 0 else sgn v * of_int (rte (\<bar>v\<bar> / ulp v)) * ulp v)"

subsection \<open>The specification's formulas\<close>

text \<open>
  Clamping as the specification words it, on the integers, and its column and row:
  with \<open>n = 2^zoom\<close> and \<open>scale = 2*M / n\<close>, the column is \<open>floor((px + M) / scale)\<close>
  and the row is \<open>floor((M - py) / scale)\<close>, each clamped into \<open>[0, n-1]\<close>. The
  arithmetic is that of the platform's doubles.
\<close>

definition clamp :: "int \<Rightarrow> int \<Rightarrow> int \<Rightarrow> int" where
  "clamp v lo hi = max lo (min hi v)"

definition spec_scale :: "'loc platform \<Rightarrow> nat \<Rightarrow> real" where
  "spec_scale P zoom = rnd P (rnd P (2 * max_coordinate_epsg3857 P) / 2 ^ zoom)"

definition spec_column :: "'loc platform \<Rightarrow> nat \<Rightarrow> 'loc \<Rightarrow> int" where
  "spec_column P zoom l =
     clamp \<lfloor>rnd P (rnd P (fst (lonlat_to_mercator P l) + max_coordinate_epsg3857 P)
                    / spec_scale P zoom)\<rfloor>
           0 (2 ^ zoom - 1)"

definition spec_row :: "'loc platform \<Rightarrow> nat \<Rightarrow> 'loc \<Rightarrow> int" where
  "spec_row P zoom l =
     clamp \<lfloor>rnd P (rnd P (max_coordinate_epsg3857 P - snd (lonlat_to_mercator P l))
                    / spec_scale P zoom)\<rfloor>
           0 (2 ^ zoom - 1)"

subsection \<open>Platforms to evaluate on\<close>

text \<open>
  Exact arithmetic (nothing is rounded), the constant of libosmium, and locations given
  by their planar coordinates, valid when both lie in \<open>[-M, M]\<close>.
\<close>

definition planar_platform :: "(real \<times> real) platform" where
  "planar_platform =
     \<lparr>rnd = (\<lambda>v. v),
      max_coordinate_epsg3857 = 20037508.34,
      location_valid = (\<lambda>l. \<bar>fst l\<bar> \<le> 20037508.34 \<and> \<bar>snd l\<bar> \<le> 20037508.34),
      lonlat_to_mercator = (\<lambda>l. l)\<rparr>"

text \<open>
  The same with the rounding of binary64, and as constant the double nearest to
  20037508.34, which is \<open>5378777688351703 / 2^28\<close>.
\<close>

definition binary64_platform :: "(real \<times> real) platform" where
  "binary64_platform =
     \<lparr>rnd = round53,
      max_coordinate_epsg3857 = 5378777688351703 / 268435456,
      location_valid = (\<lambda>l. \<bar>fst l\<bar> \<le> 5378777688351703 / 268435456
                              \<and> \<bar>snd l\<bar> \<le> 5378777688351703 / 268435456),
      lonlat_to_mercator = (\<lambda>l. l)\<rparr>"

section \<open>Properties\<close>

subsection \<open>Shifting the literal 1\<close>

lemma unat_two_power: "n < 32 \<Longrightarrow> unat ((2::32 word) ^ n) = 2 ^ n"
proof -
  assume n: "n < 32"
  have lt: "(2::nat) ^ n < 2 ^ 32"
    using n by (intro power_strict_increasing) simp_all
  have "unat (of_nat (2 ^ n) :: 32 word) = 2 ^ n mod 2 ^ LENGTH(32)"
    by (rule unat_of_nat)
  also have "\<dots> = 2 ^ n" using lt by simp
  finally show ?thesis by simp
qed

lemma shl_i32_one: "unat k \<le> 30 \<Longrightarrow> shl_i32 1 k = Inr (2 ^ unat k)"
proof -
  assume k: "unat k \<le> 30"
  have "(2::int) ^ unat k \<le> 2 ^ 30"
    using k by (intro power_increasing) simp_all
  then have "\<not> (2::int) ^ 31 \<le> 2 ^ unat k" by simp
  with k show ?thesis
    by (simp add: shl_i32_def)
qed

lemma shl_u32_one: "unat k \<le> 30 \<Longrightarrow> shl_u32 1 k = Inr (2 ^ unat k)"
  by (simp add: shl_u32_def)

lemma less_two_power_iff:
  "unat k \<le> 30 \<Longrightarrow> a < (2::32 word) ^ unat k \<longleftrightarrow> unat a < 2 ^ unat k"
  by (simp add: word_less_nat_alt unat_two_power)

lemma valid_value:
  "valid t = Inr (unat (z t) \<le> 30 \<and> unat (x t) < 2 ^ unat (z t) \<and> unat (y t) < 2 ^ unat (z t))"
proof (cases "unat (z t) \<le> 30")
  case True
  then have "\<not> 30 < z t" by (simp add: word_less_nat_alt)
  with True show ?thesis
    by (simp add: valid_def valid_with_def shl_i32_one less_two_power_iff Let_def)
next
  case False
  then show ?thesis
    by (simp add: valid_def valid_with_def word_less_nat_alt)
qed

subsection \<open>Signed words, clamping and the conversion to \<^verbatim>\<open>int32_t\<close>\<close>

lemma two_power_30: "n \<le> 30 \<Longrightarrow> (2::int) ^ n \<le> 1073741824"
  using power_increasing [of n 30 "2::int"] by simp

lemma sint_of_small:
  "- 2147483648 \<le> i \<Longrightarrow> i < 2147483648 \<Longrightarrow> sint (word_of_int i :: 32 word) = i"
  by (simp add: sint_sbintrunc' signed_take_bit_int_eq_self)

lemma sint_two_power: "n \<le> 30 \<Longrightarrow> sint ((2::32 word) ^ n) = 2 ^ n"
proof -
  assume n: "n \<le> 30"
  have pos: "(0::int) < 2 ^ n" by simp
  have "sint (word_of_int (2 ^ n) :: 32 word) = 2 ^ n"
    using pos two_power_30 [OF n] by (intro sint_of_small) linarith+
  then show ?thesis by simp
qed

lemma sint_two_power_minus_one: "n \<le> 30 \<Longrightarrow> sint ((2::32 word) ^ n - 1) = 2 ^ n - 1"
proof -
  assume n: "n \<le> 30"
  have pos: "(0::int) < 2 ^ n" by simp
  have "sint (word_of_int (2 ^ n - 1) :: 32 word) = 2 ^ n - 1"
    using pos two_power_30 [OF n] by (intro sint_of_small) linarith+
  then show ?thesis by simp
qed

lemma sint_restrict_to_range:
  assumes "n \<le> 30"
  shows "sint (restrict_to_range v 0 (2 ^ n - 1)) = clamp (sint v) 0 (2 ^ n - 1)"
proof -
  have pos: "(0::int) \<le> 2 ^ n - 1" by simp
  consider "sint v < 0" | "0 \<le> sint v" "sint v \<le> 2 ^ n - 1" | "2 ^ n - 1 < sint v"
    by linarith
  then show ?thesis
  proof cases
    case 1
    then show ?thesis using pos
      by (simp add: restrict_to_range_def clamp_def word_sless_alt)
  next
    case 2
    then show ?thesis using assms
      by (simp add: restrict_to_range_def clamp_def word_sless_alt sint_two_power_minus_one)
  next
    case 3
    with pos have "\<not> sint v < 0" by linarith
    with 3 show ?thesis using assms
      by (simp add: restrict_to_range_def clamp_def word_sless_alt sint_two_power_minus_one)
  qed
qed

lemma clamp_bounds: "lo \<le> hi \<Longrightarrow> lo \<le> clamp v lo hi \<and> clamp v lo hi \<le> hi"
  by (simp add: clamp_def)

lemma unat_of_sint_nonneg:
  assumes "0 \<le> sint (w :: 32 word)"
  shows "int (unat w) = sint w"
proof -
  have "sint w < 2 ^ 32" using sint_lt [of w] by simp
  then have "take_bit 32 (sint w) = sint w"
    using assms by (simp add: take_bit_int_eq_self)
  then show ?thesis by (simp add: uint_sint)
qed

lemma clamp_trunc_floor: "0 \<le> hi \<Longrightarrow> clamp (trunc q) 0 hi = clamp \<lfloor>q\<rfloor> 0 hi"
proof (cases "0 \<le> q")
  case True
  then show ?thesis by (simp add: trunc_def)
next
  case False
  then have tr: "trunc q = \<lceil>q\<rceil>" by (simp add: trunc_def)
  from False have "\<lceil>q\<rceil> \<le> 0" "\<lfloor>q\<rfloor> \<le> 0"
    by (simp_all add: ceiling_le_zero floor_le_zero)
  then have le: "min hi \<lceil>q\<rceil> \<le> 0" "min hi \<lfloor>q\<rfloor> \<le> 0"
    by (simp_all only: min_le_iff_disj simp_thms)
  have a: "max 0 (min hi \<lceil>q\<rceil>) = 0" by (rule max_absorb1) (rule le(1))
  have b: "max 0 (min hi \<lfloor>q\<rfloor>) = 0" by (rule max_absorb1) (rule le(2))
  show ?thesis unfolding clamp_def tr a b by (rule refl)
qed

lemma to_int32_in_range:
  assumes "0 \<le> q" "q \<le> 2 ^ n" "n \<le> 30"
  shows "to_int32 q = Inr (word_of_int \<lfloor>q\<rfloor>) \<and> sint (word_of_int \<lfloor>q\<rfloor> :: 32 word) = \<lfloor>q\<rfloor>"
proof -
  have "q \<le> real_of_int (2 ^ n)" using assms(2) by simp
  from floor_mono [OF this] have "\<lfloor>q\<rfloor> \<le> 2 ^ n" by simp
  then have up: "\<lfloor>q\<rfloor> < 2147483648" using two_power_30 [OF assms(3)] by linarith
  have lo: "0 \<le> \<lfloor>q\<rfloor>" using assms(1) by simp
  have tr: "trunc q = \<lfloor>q\<rfloor>" using assms(1) by (simp add: trunc_def)
  have "sint (word_of_int \<lfloor>q\<rfloor> :: 32 word) = \<lfloor>q\<rfloor>"
    using lo up by (intro sint_of_small) linarith+
  moreover have "to_int32 q = Inr (word_of_int \<lfloor>q\<rfloor>)"
    using lo up by (simp add: to_int32_def tr)
  ultimately show ?thesis by simp
qed

lemma unat_restrict_to_range:
  assumes "n \<le> 30"
  shows "int (unat (restrict_to_range v 0 (2 ^ n - 1))) = clamp (sint v) 0 (2 ^ n - 1)"
proof -
  have "(0::int) \<le> 2 ^ n - 1" by simp
  then have "0 \<le> clamp (sint v) 0 (2 ^ n - 1)" using clamp_bounds by blast
  then have "0 \<le> sint (restrict_to_range v 0 (2 ^ n - 1))"
    by (simp add: sint_restrict_to_range [OF assms])
  from unat_of_sint_nonneg [OF this] show ?thesis
    by (simp add: sint_restrict_to_range [OF assms])
qed

lemma restrict_to_range_less:
  assumes "n \<le> 30"
  shows "unat (restrict_to_range v 0 (2 ^ n - 1)) < 2 ^ n"
proof -
  have "(0::int) \<le> 2 ^ n - 1" by simp
  then have "clamp (sint v) 0 (2 ^ n - 1) \<le> 2 ^ n - 1" using clamp_bounds by blast
  with unat_restrict_to_range [OF assms, of v]
  have "int (unat (restrict_to_range v 0 (2 ^ n - 1))) < 2 ^ n" by linarith
  then have "int (unat (restrict_to_range v 0 (2 ^ n - 1))) < int (2 ^ n)" by simp
  then show ?thesis by (rule iffD1 [OF of_nat_less_iff])
qed

lemma restrict_to_range_zero: "restrict_to_range v 0 0 = 0"
  by (auto simp: restrict_to_range_def word_sless_alt) (metis linorder_neqE_linordered_idom signed_word_eqI sint_0)

subsection \<open>Rounding\<close>

lemma rounded_zero: "rounds_like_double r \<Longrightarrow> r 0 = 0"
proof -
  assume "rounds_like_double r"
  then have "\<forall>i::int. \<bar>i\<bar> \<le> 2 ^ 31 \<longrightarrow> r (of_int i) = of_int i"
    by (simp add: rounds_like_double_def)
  from this [rule_format, of 0] show ?thesis by simp
qed

lemma rounded_two_power:
  assumes "rounds_like_double r" "n \<le> 30" shows "r (2 ^ n) = 2 ^ n"
proof -
  have int: "\<forall>i::int. \<bar>i\<bar> \<le> 2 ^ 31 \<longrightarrow> r (of_int i) = of_int i"
    using assms(1) by (simp add: rounds_like_double_def)
  have "\<bar>(2::int) ^ n\<bar> \<le> 2 ^ 31" using two_power_30 [OF assms(2)] by simp
  from int [rule_format, OF this] show ?thesis by simp
qed

lemma rounded_mono: "rounds_like_double r \<Longrightarrow> a \<le> b \<Longrightarrow> r a \<le> r b"
  by (simp add: rounds_like_double_def)

lemma rounded_scale:
  "rounds_like_double r \<Longrightarrow> 1 \<le> a \<Longrightarrow> k \<le> 30 \<Longrightarrow> r (r a / 2 ^ k) = r a / 2 ^ k"
  by (simp add: rounds_like_double_def)

lemma rounded_extent_pos:
  assumes "rounds_like_double r" "1 \<le> M" shows "1 \<le> r (M * 2)"
proof -
  have "1 \<le> M * 2" using assms(2) by simp
  then have "r 1 \<le> r (M * 2)" by (rule rounded_mono [OF assms(1)])
  moreover have "r 1 = 1" using rounded_two_power [OF assms(1), of 0] by simp
  ultimately show ?thesis by simp
qed

lemma quotient_range:
  assumes r: "rounds_like_double r" and M: "1 \<le> M" and n: "n \<le> 30"
    and d: "0 \<le> d" "d \<le> M * 2"
  shows "0 \<le> r (r d / (r (M * 2) / 2 ^ n)) \<and> r (r d / (r (M * 2) / 2 ^ n)) \<le> 2 ^ n"
proof -
  let ?A = "r (M * 2)"
  have A: "1 \<le> ?A" by (rule rounded_extent_pos [OF r M])
  have p0: "0 \<le> r d" using rounded_mono [OF r d(1)] rounded_zero [OF r] by simp
  have pA: "r d \<le> ?A" by (rule rounded_mono [OF r d(2)])
  have eq: "r d / (?A / 2 ^ n) = (r d / ?A) * 2 ^ n" by simp
  have f0: "0 \<le> r d / ?A" using p0 A by simp
  have f1: "r d / ?A \<le> 1" using pA A by simp
  have q0: "0 \<le> r d / (?A / 2 ^ n)" unfolding eq by (rule mult_nonneg_nonneg [OF f0]) simp
  have "(r d / ?A) * 2 ^ n \<le> 1 * 2 ^ n" by (rule mult_right_mono [OF f1]) simp
  then have q1: "r d / (?A / 2 ^ n) \<le> 2 ^ n" unfolding eq by simp
  have "r 0 \<le> r (r d / (?A / 2 ^ n))" by (rule rounded_mono [OF r q0])
  moreover have "r (r d / (?A / 2 ^ n)) \<le> r (2 ^ n)" by (rule rounded_mono [OF r q1])
  ultimately show ?thesis
    using rounded_zero [OF r] rounded_two_power [OF r n] by simp
qed

subsection \<open>The constructor from a location, computed\<close>

lemma spec_scale_exact:
  assumes "rounds_like_double (rnd P)" "1 \<le> max_coordinate_epsg3857 P" "n \<le> 30"
  shows "spec_scale P n = rnd P (max_coordinate_epsg3857 P * 2) / 2 ^ n"
    and "0 < spec_scale P n"
proof -
  have M2: "1 \<le> max_coordinate_epsg3857 P * 2" using assms(2) by simp
  show eq: "spec_scale P n = rnd P (max_coordinate_epsg3857 P * 2) / 2 ^ n"
    using rounded_scale [OF assms(1) M2 assms(3)] by (simp add: spec_scale_def mult.commute)
  have "1 \<le> rnd P (max_coordinate_epsg3857 P * 2)"
    by (rule rounded_extent_pos [OF assms(1,2)])
  then show "0 < spec_scale P n" unfolding eq by simp
qed

lemma Tile_location_value:
  assumes ok: "platform_ok P" and zoom: "unat zoom \<le> 30" and loc: "location_valid P l"
  shows "Tile_location P ndebug zoom l =
           Inr \<lparr>x = restrict_to_range
                      (word_of_int \<lfloor>rnd P (rnd P (fst (lonlat_to_mercator P l) + max_coordinate_epsg3857 P)
                                / spec_scale P (unat zoom))\<rfloor>) 0 (2 ^ unat zoom - 1),
                y = restrict_to_range
                      (word_of_int \<lfloor>rnd P (rnd P (max_coordinate_epsg3857 P - snd (lonlat_to_mercator P l))
                                / spec_scale P (unat zoom))\<rfloor>) 0 (2 ^ unat zoom - 1),
                z = zoom\<rparr>"
proof -
  let ?M = "max_coordinate_epsg3857 P"
  let ?r = "rnd P"
  let ?c = "lonlat_to_mercator P l"
  let ?n = "unat zoom"
  let ?s = "spec_scale P ?n"
  let ?qx = "?r (?r (fst ?c + ?M) / ?s)"
  let ?qy = "?r (?r (?M - snd ?c) / ?s)"
  have r: "rounds_like_double ?r" and M: "1 \<le> ?M"
    and cx: "\<bar>fst ?c\<bar> \<le> ?M" and cy: "\<bar>snd ?c\<bar> \<le> ?M"
    using ok loc by (simp_all add: platform_ok_def)
  have z30: "zoom \<le> 30" using zoom by (simp add: word_le_nat_alt)
  have s_eq: "?s = ?r (?M * 2) / 2 ^ ?n" and s_pos: "0 < ?s"
    by (rule spec_scale_exact [OF r M zoom])+
  have shl: "shl_i32 1 zoom = Inr (2 ^ ?n)" by (rule shl_i32_one [OF zoom])
  have n_real: "real_of_int (sint ((2::32 word) ^ ?n)) = 2 ^ ?n"
    by (simp add: sint_two_power [OF zoom])
  have scale: "fdiv ?r (?r (?M * 2)) (real_of_int (sint ((2::32 word) ^ ?n))) = Inr ?s"
    unfolding n_real by (simp add: fdiv_def spec_scale_def mult.commute)
  have qx: "fdiv ?r (?r (fst ?c + ?M)) ?s = Inr ?qx"
    and qy: "fdiv ?r (?r (?M - snd ?c)) ?s = Inr ?qy"
    using s_pos by (simp_all add: fdiv_def)
  have dx: "0 \<le> fst ?c + ?M" "fst ?c + ?M \<le> ?M * 2" using cx by linarith+
  have dy: "0 \<le> ?M - snd ?c" "?M - snd ?c \<le> ?M * 2" using cy by linarith+
  have rx: "0 \<le> ?qx \<and> ?qx \<le> 2 ^ ?n"
    unfolding s_eq by (rule quotient_range [OF r M zoom dx])
  have ry: "0 \<le> ?qy \<and> ?qy \<le> 2 ^ ?n"
    unfolding s_eq by (rule quotient_range [OF r M zoom dy])
  have ix: "to_int32 ?qx = Inr (word_of_int \<lfloor>?qx\<rfloor>)"
    using to_int32_in_range [of ?qx ?n] rx zoom by blast
  have iy: "to_int32 ?qy = Inr (word_of_int \<lfloor>?qy\<rfloor>)"
    using to_int32_in_range [of ?qy ?n] ry zoom by blast
  show ?thesis
    unfolding Tile_location_def Let_def
    by (simp only: z30 loc shl scale qx qy ix iy simp_thms if_False sum.case)
qed

lemma restrict_to_range_at_zero: "n \<le> 30 \<Longrightarrow> restrict_to_range 0 0 (2 ^ n - 1) = 0"
proof -
  assume n: "n \<le> 30"
  have "\<not> (2::int) ^ n < 1" by (simp add: not_less)
  then show ?thesis
    by (simp add: restrict_to_range_def word_sless_alt sint_two_power_minus_one [OF n])
qed

lemma clamp_mono: "a \<le> b \<Longrightarrow> clamp a lo hi \<le> clamp b lo hi"
  by (simp add: clamp_def max_def min_def)

lemma spec_row_antimono:
  assumes r: "rounds_like_double (rnd P)" and M: "1 \<le> max_coordinate_epsg3857 P" and n: "n \<le> 30"
    and le: "snd (lonlat_to_mercator P l) \<le> snd (lonlat_to_mercator P l')"
  shows "spec_row P n l' \<le> spec_row P n l"
proof -
  let ?M = "max_coordinate_epsg3857 P"
  have s: "0 < spec_scale P n" by (rule spec_scale_exact [OF r M n])
  have "?M - snd (lonlat_to_mercator P l') \<le> ?M - snd (lonlat_to_mercator P l)"
    using le by simp
  then have "rnd P (?M - snd (lonlat_to_mercator P l')) \<le> rnd P (?M - snd (lonlat_to_mercator P l))"
    by (rule rounded_mono [OF r])
  then have "rnd P (?M - snd (lonlat_to_mercator P l')) / spec_scale P n
      \<le> rnd P (?M - snd (lonlat_to_mercator P l)) / spec_scale P n"
    using s by (simp add: divide_right_mono)
  then have "rnd P (rnd P (?M - snd (lonlat_to_mercator P l')) / spec_scale P n)
      \<le> rnd P (rnd P (?M - snd (lonlat_to_mercator P l)) / spec_scale P n)"
    by (rule rounded_mono [OF r])
  then show ?thesis
    unfolding spec_row_def by (intro clamp_mono floor_mono)
qed

subsection \<open>What a returned tile holds\<close>

lemma shl_i32_one_Inr:
  assumes "shl_i32 1 k = Inr n"
  shows "unat k \<le> 30" and "n = 2 ^ unat k"
proof -
  from assms have a: "\<not> 32 \<le> unat k" and b: "\<not> (2::int) ^ 31 \<le> 2 ^ unat k"
    and n: "n = push_bit (unat k) 1"
    by (simp_all add: shl_i32_def split: if_splits)
  have "unat k < 31"
  proof (rule ccontr)
    assume "\<not> unat k < 31"
    then have "31 \<le> unat k" by simp
    then have "(2::int) ^ 31 \<le> 2 ^ unat k" by (intro power_increasing) simp_all
    with b show False by simp
  qed
  then show "unat k \<le> 30" by simp
  from n show "n = 2 ^ unat k" by simp
qed

lemma to_int32_Inr:
  assumes "to_int32 q = Inr i"
  shows "sint i = trunc q"
proof -
  from assms have lo: "- 2147483648 \<le> trunc q" and hi: "trunc q < 2147483648"
    and i: "i = word_of_int (trunc q)"
    by (simp_all add: to_int32_def split: if_splits)
  show ?thesis unfolding i by (rule sint_of_small [OF lo hi])
qed

lemma fdiv_Inr: "fdiv r a b = Inr q \<Longrightarrow> q = r (a / b)"
  by (simp add: fdiv_def split: if_splits)

lemma Tile_location_Inr:
  assumes "Tile_location P ndebug zoom l = Inr t"
  shows "unat zoom \<le> 30"
    and "z t = zoom"
    and "int (unat (x t)) = spec_column P (unat zoom) l"
    and "int (unat (y t)) = spec_row P (unat zoom) l"
proof -
  let ?M = "max_coordinate_epsg3857 P"
  let ?c = "lonlat_to_mercator P l"
  from assms obtain n scale qx ix qy iy where
    n: "shl_i32 1 zoom = Inr n"
    and scale: "fdiv (rnd P) (rnd P (?M * 2)) (real_of_int (sint n)) = Inr scale"
    and qx: "fdiv (rnd P) (rnd P (fst ?c + ?M)) scale = Inr qx"
    and ix: "to_int32 qx = Inr ix"
    and qy: "fdiv (rnd P) (rnd P (?M - snd ?c)) scale = Inr qy"
    and iy: "to_int32 qy = Inr iy"
    and t: "t = \<lparr>x = restrict_to_range ix 0 (n - 1), y = restrict_to_range iy 0 (n - 1), z = zoom\<rparr>"
    unfolding Tile_location_def Let_def
    by (auto split: if_splits sum.splits)
  note k = shl_i32_one_Inr [OF n]
  show "unat zoom \<le> 30" by (rule k(1))
  show "z t = zoom" unfolding t by simp
  have s: "scale = spec_scale P (unat zoom)"
    using fdiv_Inr [OF scale] by (simp add: k(2) sint_two_power [OF k(1)] spec_scale_def mult.commute)
  have b: "(0::int) \<le> 2 ^ unat zoom - 1" by simp
  have "int (unat (x t)) = clamp (sint ix) 0 (2 ^ unat zoom - 1)"
    unfolding t k(2) using unat_restrict_to_range [OF k(1), of ix] by (simp only: Tile.simps)
  also have "\<dots> = clamp \<lfloor>qx\<rfloor> 0 (2 ^ unat zoom - 1)"
    unfolding to_int32_Inr [OF ix] by (rule clamp_trunc_floor [OF b])
  finally show "int (unat (x t)) = spec_column P (unat zoom) l"
    unfolding spec_column_def fdiv_Inr [OF qx] s .
  have "int (unat (y t)) = clamp (sint iy) 0 (2 ^ unat zoom - 1)"
    unfolding t k(2) using unat_restrict_to_range [OF k(1), of iy] by (simp only: Tile.simps)
  also have "\<dots> = clamp \<lfloor>qy\<rfloor> 0 (2 ^ unat zoom - 1)"
    unfolding to_int32_Inr [OF iy] by (rule clamp_trunc_floor [OF b])
  finally show "int (unat (y t)) = spec_row P (unat zoom) l"
    unfolding spec_row_def fdiv_Inr [OF qy] s .
qed

lemma Tile_location_Inr_shape:
  assumes "Tile_location P ndebug zoom l = Inr t"
  shows "\<exists>ix iy. t = \<lparr>x = restrict_to_range ix 0 (2 ^ unat zoom - 1),
                       y = restrict_to_range iy 0 (2 ^ unat zoom - 1), z = zoom\<rparr>"
proof -
  from assms obtain n ix iy where
    n: "shl_i32 1 zoom = Inr n"
    and t: "t = \<lparr>x = restrict_to_range ix 0 (n - 1), y = restrict_to_range iy 0 (n - 1), z = zoom\<rparr>"
    unfolding Tile_location_def Let_def
    by (auto split: if_splits sum.splits)
  from t show ?thesis unfolding shl_i32_one_Inr(2) [OF n] by blast
qed

subsection \<open>The rounding of binary64 rounds like a double\<close>

lemma rte_cases: "rte v = \<lfloor>v\<rfloor> \<or> (rte v = \<lfloor>v\<rfloor> + 1 \<and> of_int \<lfloor>v\<rfloor> < v)"
  by (auto simp: rte_def Let_def)

lemma floor_le_rte: "\<lfloor>v\<rfloor> \<le> rte v"
  using rte_cases [of v] by linarith

lemma rte_le_ceiling: "rte v \<le> \<lceil>v\<rceil>"
proof -
  from rte_cases [of v] show ?thesis
  proof
    assume "rte v = \<lfloor>v\<rfloor>"
    then show ?thesis by (simp add: floor_le_ceiling)
  next
    assume a: "rte v = \<lfloor>v\<rfloor> + 1 \<and> of_int \<lfloor>v\<rfloor> < v"
    then have "\<lfloor>v\<rfloor> < \<lceil>v\<rceil>" by (simp add: less_ceiling_iff)
    with a show ?thesis by linarith
  qed
qed

lemma rte_of_int: "rte (of_int i) = i"
  by (simp add: rte_def)

lemma int_le_rte: "of_int m \<le> v \<Longrightarrow> m \<le> rte v"
proof -
  assume "of_int m \<le> v"
  then have "m \<le> \<lfloor>v\<rfloor>" by (simp add: le_floor_iff)
  with floor_le_rte [of v] show ?thesis by linarith
qed

lemma rte_le_int: "v \<le> of_int m \<Longrightarrow> rte v \<le> m"
proof -
  assume "v \<le> of_int m"
  then have "\<lceil>v\<rceil> \<le> m" by (simp add: ceiling_le_iff)
  with rte_le_ceiling [of v] show ?thesis by linarith
qed

lemma rte_mono: "a \<le> b \<Longrightarrow> rte a \<le> rte b"
proof -
  assume ab: "a \<le> b"
  then have f: "\<lfloor>a\<rfloor> \<le> \<lfloor>b\<rfloor>" by (rule floor_mono)
  show ?thesis
  proof (cases "\<lfloor>a\<rfloor> = \<lfloor>b\<rfloor>")
    case True
    with ab show ?thesis by (auto simp: rte_def Let_def)
  next
    case False
    with f have "\<lfloor>a\<rfloor> + 1 \<le> \<lfloor>b\<rfloor>" by linarith
    moreover have "rte a \<le> \<lfloor>a\<rfloor> + 1" using rte_cases [of a] by linarith
    ultimately show ?thesis using floor_le_rte [of b] by linarith
  qed
qed

lemma binade_bounds:
  assumes "0 < v"
  shows "2 powr of_int (binade v) \<le> v" and "v < 2 powr of_int (binade v + 1)"
  using floor_log_eq_powr_iff [of v 2 "binade v"] assms by (simp_all add: binade_def)

lemma binade_eqI:
  assumes "0 < v" "2 powr of_int k \<le> v" "v < 2 powr of_int (k + 1)"
  shows "binade v = k"
  using floor_log_eq_powr_iff [of v 2 k] assms by (simp add: binade_def)

lemma binade_minus: "binade (- v) = binade v"
  by (simp add: binade_def)

lemma ulp_pos: "0 < ulp v"
  by (simp add: ulp_def)

lemma ulp_minus: "ulp (- v) = ulp v"
  by (simp add: ulp_def binade_minus)

lemma powr_binade_ulp: "2 powr of_int (binade v) = 2 ^ 52 * ulp v"
proof -
  have "(2::real) powr (52 + (of_int (binade v) - 52)) = 2 powr 52 * 2 powr (of_int (binade v) - 52)"
    by (rule powr_add)
  then show ?thesis by (simp add: ulp_def)
qed

lemma powr_binade_Suc_ulp: "2 powr of_int (binade v + 1) = 2 ^ 53 * ulp v"
proof -
  have "(2::real) powr (53 + (of_int (binade v) - 52)) = 2 powr 53 * 2 powr (of_int (binade v) - 52)"
    by (rule powr_add)
  moreover have "53 + (real_of_int (binade v) - 52) = of_int (binade v + 1)" by simp
  ultimately show ?thesis by (simp add: ulp_def)
qed

lemma scaled_range:
  assumes "0 < v"
  shows "2 ^ 52 \<le> v / ulp v" and "v / ulp v < 2 ^ 53"
proof -
  from binade_bounds [OF assms]
  have "2 ^ 52 * ulp v \<le> v" and "v < 2 ^ 53 * ulp v"
    by (simp_all only: powr_binade_ulp powr_binade_Suc_ulp)
  then show "2 ^ 52 \<le> v / ulp v" and "v / ulp v < 2 ^ 53"
    using ulp_pos [of v] by (simp_all add: pos_le_divide_eq pos_divide_less_eq)
qed


lemma round53_zero: "round53 0 = 0"
  by (simp add: round53_def)

lemma round53_pos: "0 < v \<Longrightarrow> round53 v = of_int (rte (v / ulp v)) * ulp v"
  by (simp add: round53_def)

lemma round53_minus: "round53 (- v) = - round53 v"
  by (simp add: round53_def ulp_minus sgn_minus)

lemma rte_scaled_range:
  assumes "0 < v"
  shows "2 ^ 52 \<le> rte (v / ulp v)" and "rte (v / ulp v) \<le> 2 ^ 53"
proof -
  have "of_int (2 ^ 52) \<le> v / ulp v" using scaled_range(1) [OF assms] by simp
  then show "2 ^ 52 \<le> rte (v / ulp v)" by (rule int_le_rte)
  have "v / ulp v \<le> of_int (2 ^ 53)" using scaled_range(2) [OF assms] by simp
  then show "rte (v / ulp v) \<le> 2 ^ 53" by (rule rte_le_int)
qed

lemma round53_pos_bounds:
  assumes "0 < v"
  shows "2 powr of_int (binade v) \<le> round53 v" and "round53 v \<le> 2 powr of_int (binade v + 1)"
proof -
  have "(2::real) ^ 52 \<le> of_int (rte (v / ulp v))"
    using rte_scaled_range(1) [OF assms] by (metis of_int_le_iff of_int_numeral of_int_power)
  then have "2 ^ 52 * ulp v \<le> of_int (rte (v / ulp v)) * ulp v"
    using ulp_pos [of v] by (intro mult_right_mono) simp_all
  then show "2 powr of_int (binade v) \<le> round53 v"
    by (simp only: powr_binade_ulp round53_pos [OF assms])
  have "of_int (rte (v / ulp v)) \<le> (2::real) ^ 53"
    using rte_scaled_range(2) [OF assms] by (metis of_int_le_iff of_int_numeral of_int_power)
  then have "of_int (rte (v / ulp v)) * ulp v \<le> 2 ^ 53 * ulp v"
    using ulp_pos [of v] by (intro mult_right_mono) simp_all
  then show "round53 v \<le> 2 powr of_int (binade v + 1)"
    by (simp only: powr_binade_Suc_ulp round53_pos [OF assms])
qed

lemma round53_pos_pos: "0 < v \<Longrightarrow> 0 < round53 v"
  using round53_pos_bounds(1) [of v] powr_gt_zero [of 2 "of_int (binade v)"] by linarith

lemma binade_mono: "0 < a \<Longrightarrow> a \<le> b \<Longrightarrow> binade a \<le> binade b"
  unfolding binade_def by (intro floor_mono) simp

lemma round53_mono_pos:
  assumes "0 < a" "a \<le> b"
  shows "round53 a \<le> round53 b"
proof (cases "binade a = binade b")
  case True
  then have u: "ulp a = ulp b" by (simp add: ulp_def)
  have "a / ulp b \<le> b / ulp b" using assms(2) ulp_pos [of b] by (simp add: divide_right_mono)
  then have "rte (a / ulp b) \<le> rte (b / ulp b)" by (rule rte_mono)
  then have "of_int (rte (a / ulp b)) * ulp b \<le> of_int (rte (b / ulp b)) * ulp b"
    using ulp_pos [of b] by (intro mult_right_mono) simp_all
  with assms show ?thesis by (simp add: round53_pos u)
next
  case False
  with binade_mono [OF assms] have "binade a + 1 \<le> binade b" by linarith
  then have "(2::real) powr of_int (binade a + 1) \<le> 2 powr of_int (binade b)"
    by (intro powr_mono) simp_all
  moreover have "round53 a \<le> 2 powr of_int (binade a + 1)"
    by (rule round53_pos_bounds(2) [OF assms(1)])
  moreover have "2 powr of_int (binade b) \<le> round53 b"
    using assms by (intro round53_pos_bounds(1)) linarith
  ultimately show ?thesis by linarith
qed

lemma round53_mono: "a \<le> b \<Longrightarrow> round53 a \<le> round53 b"
proof -
  assume ab: "a \<le> b"
  consider "0 < a" | "a = 0" "b = 0" | "a = 0" "0 < b" | "a < 0" "0 < b" | "a < 0" "b = 0"
    | "a < 0" "b < 0"
    using ab by linarith
  then show ?thesis
  proof cases
    case 1
    then show ?thesis using ab by (rule round53_mono_pos)
  next
    case 2
    then show ?thesis by simp
  next
    case 3
    then show ?thesis using round53_pos_pos [of b] by (simp add: round53_zero)
  next
    case 4
    then have "0 < round53 (- a)" "0 < round53 b" by (simp_all add: round53_pos_pos)
    then show ?thesis by (simp add: round53_minus)
  next
    case 5
    then have "0 < round53 (- a)" by (simp add: round53_pos_pos)
    with 5 show ?thesis by (simp add: round53_minus round53_zero)
  next
    case 6
    then have "0 < - b" "- b \<le> - a" using ab by simp_all
    then have "round53 (- b) \<le> round53 (- a)" by (rule round53_mono_pos)
    then show ?thesis by (simp add: round53_minus)
  qed
qed

lemma round53_fix:
  assumes "v \<noteq> 0" "\<bar>v\<bar> / ulp v = of_int m"
  shows "round53 v = v"
proof -
  have eq: "\<bar>v\<bar> = of_int m * ulp v"
    using assms(2) ulp_pos [of v] by (simp add: field_simps)
  have "round53 v = sgn v * of_int m * ulp v"
    using assms by (simp add: round53_def rte_of_int)
  also have "\<dots> = sgn v * \<bar>v\<bar>" by (simp add: eq)
  also have "\<dots> = v" by (rule sgn_mult_abs)
  finally show ?thesis .
qed

lemma binade_upper:
  assumes "0 < v" "v < 2 ^ n"
  shows "binade v < int n"
proof (rule ccontr)
  assume "\<not> binade v < int n"
  then have "real n \<le> of_int (binade v)" by simp
  then have "(2::real) powr real n \<le> 2 powr of_int (binade v)" by (intro powr_mono) simp_all
  moreover have "(2::real) powr real n = 2 ^ n" by (simp add: powr_realpow)
  ultimately show False using binade_bounds(1) [OF assms(1)] assms(2) by linarith
qed

lemma inverse_ulp:
  assumes "binade v \<le> 52"
  shows "1 / ulp v = 2 ^ nat (52 - binade v)"
proof -
  have "1 / ulp v = 2 powr (- (of_int (binade v) - 52))"
    unfolding ulp_def by (simp only: powr_minus_divide)
  also have "- (real_of_int (binade v) - 52) = real (nat (52 - binade v))"
    using assms by simp
  also have "2 powr real (nat (52 - binade v)) = 2 ^ nat (52 - binade v)"
    by (simp add: powr_realpow)
  finally show ?thesis .
qed

lemma round53_of_int:
  assumes "\<bar>i\<bar> \<le> 2 ^ 52"
  shows "round53 (of_int i) = of_int i"
proof (cases "i = 0")
  case True
  then show ?thesis by (simp add: round53_zero)
next
  case False
  let ?v = "real_of_int i"
  have pos: "0 < \<bar>?v\<bar>" using False by simp
  have "\<bar>?v\<bar> \<le> 2 ^ 52" using assms by (metis of_int_abs of_int_le_iff of_int_numeral of_int_power)
  then have "\<bar>?v\<bar> < 2 ^ 53" by simp
  from binade_upper [OF pos this] have b: "binade ?v \<le> 52"
    by (simp add: binade_def)
  have "\<bar>?v\<bar> / ulp ?v = \<bar>?v\<bar> * (1 / ulp ?v)" by simp
  also have "\<dots> = of_int (\<bar>i\<bar> * 2 ^ nat (52 - binade ?v))"
    by (simp add: inverse_ulp [OF b])
  finally have "\<bar>?v\<bar> / ulp ?v = of_int (\<bar>i\<bar> * 2 ^ nat (52 - binade ?v))" .
  moreover have "?v \<noteq> 0" using False by simp
  ultimately show ?thesis by (rule round53_fix [rotated])
qed


lemma round53_representable:
  assumes "0 < v"
  shows "\<exists>m. \<bar>round53 v\<bar> / ulp (round53 v) = of_int m"
proof -
  let ?m = "rte (v / ulp v)"
  let ?y = "round53 v"
  have y: "?y = of_int ?m * ulp v" by (rule round53_pos [OF assms])
  have ypos: "0 < ?y" by (rule round53_pos_pos [OF assms])
  have lo: "2 powr of_int (binade v) \<le> ?y" by (rule round53_pos_bounds [OF assms])
  show ?thesis
  proof (cases "?m < 2 ^ 53")
    case True
    then have "of_int ?m < (2::real) ^ 53"
      by (metis of_int_less_iff of_int_numeral of_int_power)
    then have "of_int ?m * ulp v < 2 ^ 53 * ulp v"
      using ulp_pos [of v] by (intro mult_strict_right_mono) simp_all
    then have "?y < 2 powr of_int (binade v + 1)"
      by (simp only: y powr_binade_Suc_ulp)
    from binade_eqI [OF ypos lo this] have "ulp ?y = ulp v" by (simp add: ulp_def)
    then have "\<bar>?y\<bar> / ulp ?y = of_int ?m"
      using ypos ulp_pos [of v] by (simp add: y)
    then show ?thesis by blast
  next
    case False
    with rte_scaled_range(2) [OF assms] have m: "?m = 2 ^ 53" by linarith
    have yv: "?y = 2 powr of_int (binade v + 1)"
      by (simp only: y m powr_binade_Suc_ulp) simp
    have "(2::real) powr of_int (binade v + 1) < 2 powr of_int (binade v + 1 + 1)"
      by (intro powr_less_mono) simp_all
    then have "binade ?y = binade v + 1"
      using ypos by (intro binade_eqI) (simp_all add: yv)
    with powr_binade_ulp [of ?y] have "?y = 2 ^ 52 * ulp ?y" by (simp add: yv)
    then have "\<bar>?y\<bar> / ulp ?y = 2 ^ 52"
      using ypos ulp_pos [of ?y] by (simp add: field_simps)
    also have "\<dots> = of_int (2 ^ 52)" by simp
    finally show ?thesis by blast
  qed
qed

lemma binade_divide_power:
  assumes "v \<noteq> 0"
  shows "binade (v / 2 ^ k) = binade v - int k"
proof -
  have pos: "0 < \<bar>v\<bar>" using assms by simp
  have k: "(2::real) ^ k = 2 powr of_int (int k)" by (simp add: powr_realpow)
  have a: "(2::real) powr of_int (binade v - int k) = 2 powr of_int (binade v) / 2 ^ k"
    unfolding k by (simp add: powr_diff)
  have b: "(2::real) powr of_int (binade v - int k + 1) = 2 powr of_int (binade v + 1) / 2 ^ k"
    unfolding k using powr_diff [of "2::real" "of_int (binade v + 1)" "of_int (int k)"] by (simp add: algebra_simps)
  have "binade (\<bar>v\<bar> / 2 ^ k) = binade v - int k"
  proof (rule binade_eqI)
    show "0 < \<bar>v\<bar> / 2 ^ k" using pos by simp
    show "2 powr of_int (binade v - int k) \<le> \<bar>v\<bar> / 2 ^ k"
      unfolding a using binade_bounds(1) [OF pos] by (simp add: divide_right_mono binade_def)
    show "\<bar>v\<bar> / 2 ^ k < 2 powr of_int (binade v - int k + 1)"
      unfolding b using binade_bounds(2) [OF pos] by (simp add: divide_strict_right_mono binade_def)
  qed
  then show ?thesis by (simp add: binade_def)
qed

lemma round53_divide_power:
  assumes "v \<noteq> 0" "\<bar>v\<bar> / ulp v = of_int m"
  shows "round53 (v / 2 ^ k) = v / 2 ^ k"
proof -
  have "ulp (v / 2 ^ k) = 2 powr (of_int (binade v) - 52 - of_int (int k))"
    by (simp add: ulp_def binade_divide_power [OF assms(1)] algebra_simps)
  also have "\<dots> = ulp v / 2 powr of_int (int k)"
    unfolding ulp_def by (rule powr_diff)
  also have "(2::real) powr of_int (int k) = 2 ^ k" by (simp add: powr_realpow)
  finally have u: "ulp (v / 2 ^ k) = ulp v / 2 ^ k" .
  have "\<bar>v / 2 ^ k\<bar> / ulp (v / 2 ^ k) = \<bar>v\<bar> / ulp v"
    unfolding u by simp
  then have "\<bar>v / 2 ^ k\<bar> / ulp (v / 2 ^ k) = of_int m" using assms(2) by simp
  moreover have "v / 2 ^ k \<noteq> 0" using assms(1) by simp
  ultimately show ?thesis by (rule round53_fix [rotated])
qed

lemma round53_round53_divide_power:
  assumes "0 < a"
  shows "round53 (round53 a / 2 ^ k) = round53 a / 2 ^ k"
proof -
  from round53_representable [OF assms] obtain m where
    "\<bar>round53 a\<bar> / ulp (round53 a) = of_int m" by blast
  moreover have "round53 a \<noteq> 0" using round53_pos_pos [OF assms] by simp
  ultimately show ?thesis by (rule round53_divide_power [rotated])
qed

lemma round53_rounds_like_double: "rounds_like_double round53"
  unfolding rounds_like_double_def
proof (intro conjI allI impI)
  fix a b :: real assume "a \<le> b"
  then show "round53 a \<le> round53 b" by (rule round53_mono)
next
  fix i :: int assume "\<bar>i\<bar> \<le> 2 ^ 31"
  then have "\<bar>i\<bar> \<le> 2 ^ 52" by simp
  then show "round53 (of_int i) = of_int i" by (rule round53_of_int)
next
  fix a :: real and k :: nat assume "1 \<le> a"
  then have "0 < a" by simp
  then show "round53 (round53 a / 2 ^ k) = round53 a / 2 ^ k"
    by (rule round53_round53_divide_power)
qed

subsection \<open>The two platforms are in order\<close>

lemma planar_platform_ok: "platform_ok planar_platform"
  by (simp add: platform_ok_def planar_platform_def rounds_like_double_def)

lemma binary64_platform_ok: "platform_ok binary64_platform"
  by (simp add: platform_ok_def binary64_platform_def round53_rounds_like_double)

section \<open>The validity predicate\<close>

text \<open>
  C2. \<open>valid\<close> returns true exactly when \<open>z \<le> 30\<close>, \<open>x < 2^z\<close> and \<open>y < 2^z\<close>, for
  every tile; in particular it returns false whenever \<open>z > 30\<close>, whatever \<open>x\<close> and
  \<open>y\<close> are. It is a function of the tile alone and never an error.
\<close>

theorem valid_iff:
  "valid t = Inr (unat (z t) \<le> 30 \<and> unat (x t) < 2 ^ unat (z t) \<and> unat (y t) < 2 ^ unat (z t))
   \<and> (30 < unat (z t) \<longrightarrow> valid t = Inr False)"
  by (simp add: valid_value)

theorem valid_iff_witness:
  "30 < unat (31 :: uint32_t) \<and> valid \<lparr>x = 5, y = 7, z = 31\<rparr> = Inr False
   \<and> valid \<lparr>x = 3, y = 0, z = 2\<rparr> = Inr True \<and> valid \<lparr>x = 4, y = 0, z = 2\<rparr> = Inr False"
  using valid_iff [of "\<lparr>x = 5, y = 7, z = 31\<rparr>"] valid_iff [of "\<lparr>x = 3, y = 0, z = 2\<rparr>"]
    valid_iff [of "\<lparr>x = 4, y = 0, z = 2\<rparr>"]
  by simp

text \<open>
  C10. \<open>valid\<close> returns a boolean for every tile. When \<open>z > 30\<close> the result is false
  whatever the shift would do, so the shift is not consulted; when \<open>z \<le> 30\<close> the shift
  amount is below the word size, the shift is defined with value \<open>2^z\<close>, and the result
  depends on the shift at the amount \<open>z\<close> only.
\<close>

theorem valid_shift_guarded:
  "(\<exists>b. valid t = Inr b)
   \<and> (30 < unat (z t) \<longrightarrow> (\<forall>shl. valid_with shl t = Inr False))
   \<and> (unat (z t) \<le> 30 \<longrightarrow>
        unat (z t) < 32 \<and> shl_i32 1 (z t) = Inr (2 ^ unat (z t))
        \<and> (\<forall>shl. shl 1 (z t) = shl_i32 1 (z t) \<longrightarrow> valid_with shl t = valid t))"
proof -
  have total: "\<exists>b. valid t = Inr b" by (simp add: valid_value)
  have early: "30 < unat (z t) \<longrightarrow> (\<forall>shl. valid_with shl t = Inr False)"
    by (simp add: valid_with_def word_less_nat_alt)
  have late: "unat (z t) \<le> 30 \<longrightarrow>
        unat (z t) < 32 \<and> shl_i32 1 (z t) = Inr (2 ^ unat (z t))
        \<and> (\<forall>shl. shl 1 (z t) = shl_i32 1 (z t) \<longrightarrow> valid_with shl t = valid t)"
    by (simp add: shl_i32_one valid_def valid_with_def)
  from total early late show ?thesis by blast
qed

theorem valid_shift_guarded_witness:
  "30 < unat (31 :: uint32_t)
   \<and> valid \<lparr>x = 0, y = 0, z = 31\<rparr> = Inr False
   \<and> valid_with (\<lambda>a b. Inl Undefined_shift) \<lparr>x = 0, y = 0, z = 31\<rparr> = Inr False
   \<and> shl_i32 1 31 = Inl Undefined_shift
   \<and> unat (30 :: uint32_t) \<le> 30
   \<and> shl_i32 1 30 = Inr (2 ^ 30)
   \<and> valid \<lparr>x = 0, y = 0, z = 30\<rparr> = Inr True"
  using valid_shift_guarded [of "\<lparr>x = 0, y = 0, z = 31\<rparr>"]
    valid_shift_guarded [of "\<lparr>x = 0, y = 0, z = 30\<rparr>"]
  by (simp add: shl_i32_def valid_def valid_with_def)

section \<open>The constructor from explicit coordinates\<close>

lemma Tile_coords_pre:
  assumes "unat zoom \<le> 30" "unat tx < 2 ^ unat zoom" "unat ty < 2 ^ unat zoom"
  shows "Tile_coords ndebug zoom tx ty = Inr \<lparr>x = tx, y = ty, z = zoom\<rparr>"
proof -
  have "zoom \<le> 30" using assms(1) by (simp add: word_le_nat_alt)
  then show ?thesis
    using assms by (simp add: Tile_coords_def Let_def shl_u32_one less_two_power_iff)
qed

text \<open>
  C5. Under the preconditions \<open>zoom \<le> 30\<close>, \<open>column < 2^zoom\<close>, \<open>row < 2^zoom\<close> the
  constructor from explicit coordinates returns the tile whose fields are the three
  arguments, unchanged.
\<close>

theorem Tile_coords_verbatim:
  assumes "unat zoom \<le> 30" "unat tx < 2 ^ unat zoom" "unat ty < 2 ^ unat zoom"
  shows "Tile_coords ndebug zoom tx ty = Inr \<lparr>x = tx, y = ty, z = zoom\<rparr>"
  using assms by (rule Tile_coords_pre)

theorem Tile_coords_verbatim_witness:
  "unat (5 :: uint32_t) \<le> 30 \<and> unat (3 :: uint32_t) < 2 ^ unat (5 :: uint32_t)
   \<and> unat (31 :: uint32_t) < 2 ^ unat (5 :: uint32_t)
   \<and> Tile_coords False 5 3 31 = Inr \<lparr>x = 3, y = 31, z = 5\<rparr>
   \<and> Tile_coords True 5 3 31 = Inr \<lparr>x = 3, y = 31, z = 5\<rparr>"
  using Tile_coords_verbatim [of 5 3 31 False] Tile_coords_verbatim [of 5 3 31 True] by simp

text \<open>
  C4, amended. For \<open>zoom \<le> 30\<close>, \<open>column < 2^zoom\<close> and \<open>row < 2^zoom\<close>, the
  constructor from explicit coordinates returns a tile, with or without assertions, and
  the tile is valid.
\<close>

theorem Tile_coords_valid:
  assumes "unat zoom \<le> 30" "unat tx < 2 ^ unat zoom" "unat ty < 2 ^ unat zoom"
  shows "\<exists>t. Tile_coords ndebug zoom tx ty = Inr t \<and> valid t = Inr True"
  using assms by (simp add: Tile_coords_pre valid_value)

theorem Tile_coords_valid_witness:
  "unat (5 :: uint32_t) \<le> 30 \<and> unat (3 :: uint32_t) < 2 ^ unat (5 :: uint32_t)
   \<and> unat (31 :: uint32_t) < 2 ^ unat (5 :: uint32_t)
   \<and> (\<exists>t. Tile_coords False 5 3 31 = Inr t \<and> valid t = Inr True)"
  using Tile_coords_valid [of 5 3 31 False] by simp

text \<open>
  C4 as stated, with no bound on the zoom: at zoom 31, column 0 and row 0 the column and
  the row are below \<open>2^31\<close>; without assertions the constructor stores the three values
  and \<open>valid\<close> is false of the tile, with assertions the first one fails.
\<close>

theorem Tile_coords_zoom_31_counterexample:
  "unat (0 :: uint32_t) < 2 ^ unat (31 :: uint32_t)
   \<and> Tile_coords True 31 0 0 = Inr \<lparr>x = 0, y = 0, z = 31\<rparr>
   \<and> valid \<lparr>x = 0, y = 0, z = 31\<rparr> = Inr False
   \<and> Tile_coords False 31 0 0 = Inl Assertion_failed"
  by (simp add: Tile_coords_def valid_value)

section \<open>The constructor from a location\<close>

text \<open>
  C1. Every tile the constructor returns from \<open>(zoom, location)\<close> is valid and is a tile
  of that zoom: its \<open>z\<close> is the zoom given, which is at most 30, and its \<open>x\<close> and \<open>y\<close>
  are below \<open>2^zoom\<close>, that is in \<open>[0, 2^zoom - 1]\<close>. On a platform that meets the
  assumptions the constructor does return such a tile, with or without assertions, for
  every zoom \<open>\<le> 30\<close> and every valid location.
\<close>

theorem Tile_location_valid:
  "(\<forall>t. Tile_location P ndebug zoom l = Inr t \<longrightarrow>
        valid t = Inr True \<and> z t = zoom \<and> unat (z t) \<le> 30
        \<and> unat (x t) < 2 ^ unat zoom \<and> unat (y t) < 2 ^ unat zoom
        \<and> unat (x t) \<le> 2 ^ unat zoom - 1 \<and> unat (y t) \<le> 2 ^ unat zoom - 1
        \<and> unat (x t) < 2 ^ unat (z t) \<and> unat (y t) < 2 ^ unat (z t))
   \<and> (platform_ok P \<and> unat zoom \<le> 30 \<and> location_valid P l \<longrightarrow>
        (\<exists>t. Tile_location P ndebug zoom l = Inr t
           \<and> valid t = Inr True \<and> z t = zoom
           \<and> unat (x t) \<le> 2 ^ unat zoom - 1 \<and> unat (y t) \<le> 2 ^ unat zoom - 1))"
proof -
  have returned: "valid t = Inr True \<and> z t = zoom \<and> unat (z t) \<le> 30
        \<and> unat (x t) < 2 ^ unat zoom \<and> unat (y t) < 2 ^ unat zoom
        \<and> unat (x t) \<le> 2 ^ unat zoom - 1 \<and> unat (y t) \<le> 2 ^ unat zoom - 1
        \<and> unat (x t) < 2 ^ unat (z t) \<and> unat (y t) < 2 ^ unat (z t)"
    if t: "Tile_location P ndebug zoom l = Inr t" for t
  proof -
    have zoom: "unat zoom \<le> 30" by (rule Tile_location_Inr(1) [OF t])
    have zt: "z t = zoom" by (rule Tile_location_Inr(2) [OF t])
    from Tile_location_Inr_shape [OF t] obtain ix iy where
      s: "t = \<lparr>x = restrict_to_range ix 0 (2 ^ unat zoom - 1),
               y = restrict_to_range iy 0 (2 ^ unat zoom - 1), z = zoom\<rparr>"
      by blast
    have xl: "unat (x t) < 2 ^ unat zoom"
      unfolding s using restrict_to_range_less [OF zoom, of ix] by simp
    have yl: "unat (y t) < 2 ^ unat zoom"
      unfolding s using restrict_to_range_less [OF zoom, of iy] by simp
    have xm: "unat (x t) \<le> 2 ^ unat zoom - 1" using xl by linarith
    have ym: "unat (y t) \<le> 2 ^ unat zoom - 1" using yl by linarith
    have v: "valid t = Inr True"
      unfolding valid_value zt using zoom xl yl by simp
    from v zt zoom xl yl xm ym show ?thesis by simp
  qed
  have total: "\<exists>t. Tile_location P ndebug zoom l = Inr t"
    if "platform_ok P \<and> unat zoom \<le> 30 \<and> location_valid P l"
    using that by (simp add: Tile_location_value)
  from returned total show ?thesis by blast
qed

theorem Tile_location_valid_witness:
  "platform_ok planar_platform \<and> unat (3 :: uint32_t) \<le> 30
   \<and> location_valid planar_platform (20037508.34, 20037508.34)
   \<and> Tile_location planar_platform False 3 (20037508.34, 20037508.34) = Inr \<lparr>x = 7, y = 0, z = 3\<rparr>
   \<and> valid \<lparr>x = 7, y = 0, z = 3\<rparr> = Inr True
   \<and> unat (1 :: uint32_t) \<le> 30
   \<and> location_valid planar_platform (10018754.17, -10018754.17)
   \<and> Tile_location planar_platform False 1 (10018754.17, -10018754.17) = Inr \<lparr>x = 1, y = 1, z = 1\<rparr>
   \<and> valid \<lparr>x = 1, y = 1, z = 1\<rparr> = Inr True
   \<and> platform_ok binary64_platform \<and> unat (30 :: uint32_t) \<le> 30
   \<and> location_valid binary64_platform (1/3, -1/3)
   \<and> (\<exists>t. Tile_location binary64_platform False 30 (1/3, -1/3) = Inr t
          \<and> valid t = Inr True \<and> z t = 30
          \<and> unat (x t) \<le> 2 ^ 30 - 1 \<and> unat (y t) \<le> 2 ^ 30 - 1)"
proof -
  have h1: "platform_ok planar_platform" by (rule planar_platform_ok)
  have h2: "unat (3 :: uint32_t) \<le> 30" by simp
  have h3: "location_valid planar_platform (20037508.34, 20037508.34)"
    by (simp add: planar_platform_def)
  have e: "Tile_location planar_platform False 3 (20037508.34, 20037508.34)
             = Inr \<lparr>x = 7, y = 0, z = 3\<rparr>"
    by (simp add: Tile_location_def planar_platform_def shl_i32_def fdiv_def to_int32_def trunc_def
        restrict_to_range_def word_sless_alt)
  from Tile_location_valid [of planar_platform False 3 "(20037508.34, 20037508.34)"] e
  have v3: "valid \<lparr>x = 7, y = 0, z = 3\<rparr> = Inr True"
    by blast
  have k2: "unat (1 :: uint32_t) \<le> 30" by simp
  have k3: "location_valid planar_platform (10018754.17, -10018754.17)"
    by (simp add: planar_platform_def)
  have e1: "Tile_location planar_platform False 1 (10018754.17, -10018754.17)
             = Inr \<lparr>x = 1, y = 1, z = 1\<rparr>"
    by (simp add: Tile_location_def planar_platform_def shl_i32_def fdiv_def to_int32_def trunc_def
        restrict_to_range_def word_sless_alt)
  from Tile_location_valid [of planar_platform False 1 "(10018754.17, -10018754.17)"] e1
  have v1: "valid \<lparr>x = 1, y = 1, z = 1\<rparr> = Inr True"
    by blast
  have g1: "platform_ok binary64_platform" by (rule binary64_platform_ok)
  have g2: "unat (30 :: uint32_t) \<le> 30" by simp
  have g3: "location_valid binary64_platform (1/3, -1/3)"
    by (simp add: binary64_platform_def)
  have u: "unat (30 :: uint32_t) = 30" by simp
  have le: "(30 :: nat) \<le> 30" by simp
  from Tile_location_valid [of binary64_platform False 30 "(1/3, -1/3)", unfolded u] g1 le g3
  have b: "\<exists>t. Tile_location binary64_platform False 30 (1/3, -1/3) = Inr t
          \<and> valid t = Inr True \<and> z t = 30
          \<and> unat (x t) \<le> 2 ^ 30 - 1 \<and> unat (y t) \<le> 2 ^ 30 - 1"
    by blast
  from h1 h2 h3 e v3 k2 k3 e1 v1 g1 g2 g3 b show ?thesis by blast
qed

text \<open>
  C3. Whenever the constructor returns a tile, its \<open>z\<close> is the zoom, its column is
  \<open>floor((px + M) / scale)\<close> clamped into \<open>[0, n-1]\<close> and its row is
  \<open>floor((M - py) / scale)\<close> clamped into \<open>[0, n-1]\<close>, with \<open>n = 2^zoom\<close> and
  \<open>scale = 2*M / n\<close>: the code drops the fraction of the quotient towards zero, which
  differs from the floor on negative quotients only, and those clamp to 0 either way.
  On a platform that meets the assumptions the constructor does return a tile for every
  zoom \<open>\<le> 30\<close> and valid location, and rows grow southwards: a valid location whose
  \<open>py\<close> is at least as large gets a row that is at most as large.
\<close>

theorem Tile_location_formula:
  "(\<forall>t. Tile_location P ndebug zoom l = Inr t \<longrightarrow>
        z t = zoom
        \<and> int (unat (x t)) = spec_column P (unat zoom) l
        \<and> int (unat (y t)) = spec_row P (unat zoom) l)
   \<and> (platform_ok P \<and> unat zoom \<le> 30 \<and> location_valid P l \<longrightarrow>
        (\<exists>t. Tile_location P ndebug zoom l = Inr t
           \<and> (\<forall>l' t'. location_valid P l'
                  \<and> snd (lonlat_to_mercator P l) \<le> snd (lonlat_to_mercator P l')
                  \<and> Tile_location P ndebug zoom l' = Inr t'
                \<longrightarrow> unat (y t') \<le> unat (y t))))"
proof (intro conjI impI)
  show "\<forall>t. Tile_location P ndebug zoom l = Inr t \<longrightarrow>
        z t = zoom
        \<and> int (unat (x t)) = spec_column P (unat zoom) l
        \<and> int (unat (y t)) = spec_row P (unat zoom) l"
  proof (intro allI impI)
    fix t assume t: "Tile_location P ndebug zoom l = Inr t"
    from Tile_location_Inr(2-4) [OF t]
    show "z t = zoom \<and> int (unat (x t)) = spec_column P (unat zoom) l
        \<and> int (unat (y t)) = spec_row P (unat zoom) l"
      by (intro conjI)
  qed
next
  assume a: "platform_ok P \<and> unat zoom \<le> 30 \<and> location_valid P l"
  then have ok: "platform_ok P" and zoom: "unat zoom \<le> 30" and loc: "location_valid P l"
    by simp_all
  obtain t where t: "Tile_location P ndebug zoom l = Inr t"
    using Tile_location_value [OF ok zoom loc] by blast
  have r: "rounds_like_double (rnd P)" and M: "1 \<le> max_coordinate_epsg3857 P"
    using ok by (simp_all add: platform_ok_def)
  have north: "unat (y t') \<le> unat (y t)"
    if "snd (lonlat_to_mercator P l) \<le> snd (lonlat_to_mercator P l')"
      "Tile_location P ndebug zoom l' = Inr t'" for l' t'
  proof -
    have "int (unat (y t')) = spec_row P (unat zoom) l'"
      by (rule Tile_location_Inr [OF that(2)])
    also have "\<dots> \<le> spec_row P (unat zoom) l"
      by (rule spec_row_antimono [OF r M zoom that(1)])
    also have "\<dots> = int (unat (y t))"
      by (rule Tile_location_Inr(4) [OF t, symmetric])
    finally show ?thesis by (rule iffD1 [OF of_nat_le_iff])
  qed
  from t north show "\<exists>t. Tile_location P ndebug zoom l = Inr t
           \<and> (\<forall>l' t'. location_valid P l'
                  \<and> snd (lonlat_to_mercator P l) \<le> snd (lonlat_to_mercator P l')
                  \<and> Tile_location P ndebug zoom l' = Inr t'
                \<longrightarrow> unat (y t') \<le> unat (y t))"
    by blast
qed

theorem Tile_location_formula_witness:
  "platform_ok planar_platform \<and> unat (1 :: uint32_t) \<le> 30
   \<and> location_valid planar_platform (-10018754.17, 10018754.17)
   \<and> location_valid planar_platform (10018754.17, -10018754.17)
   \<and> Tile_location planar_platform False 1 (-10018754.17, 10018754.17) = Inr \<lparr>x = 0, y = 0, z = 1\<rparr>
   \<and> Tile_location planar_platform False 1 (10018754.17, -10018754.17) = Inr \<lparr>x = 1, y = 1, z = 1\<rparr>
   \<and> spec_column planar_platform 1 (10018754.17, -10018754.17) = 1
   \<and> spec_row planar_platform 1 (10018754.17, -10018754.17) = 1
   \<and> unat (y \<lparr>x = 0, y = 0, z = 1 :: uint32_t\<rparr>) \<le> unat (y \<lparr>x = 1, y = 1, z = 1 :: uint32_t\<rparr>)
   \<and> platform_ok binary64_platform \<and> unat (30 :: uint32_t) \<le> 30
   \<and> location_valid binary64_platform (1/3, -1/3)
   \<and> (\<exists>t. Tile_location binary64_platform False 30 (1/3, -1/3) = Inr t
          \<and> int (unat (x t)) = spec_column binary64_platform 30 (1/3, -1/3)
          \<and> int (unat (y t)) = spec_row binary64_platform 30 (1/3, -1/3))"
proof -
  have h1: "platform_ok planar_platform" by (rule planar_platform_ok)
  have h2: "unat (1 :: uint32_t) \<le> 30" by simp
  have h3: "location_valid planar_platform (-10018754.17, 10018754.17)"
    and h4: "location_valid planar_platform (10018754.17, -10018754.17)"
    by (simp_all add: planar_platform_def)
  have e1: "Tile_location planar_platform False 1 (-10018754.17, 10018754.17)
              = Inr \<lparr>x = 0, y = 0, z = 1\<rparr>"
    by (simp add: Tile_location_def planar_platform_def shl_i32_def fdiv_def to_int32_def trunc_def
        restrict_to_range_def word_sless_alt)
  have e2: "Tile_location planar_platform False 1 (10018754.17, -10018754.17)
              = Inr \<lparr>x = 1, y = 1, z = 1\<rparr>"
    by (simp add: Tile_location_def planar_platform_def shl_i32_def fdiv_def to_int32_def trunc_def
        restrict_to_range_def word_sless_alt)
  note f = Tile_location_formula [of planar_platform False 1 "(10018754.17, -10018754.17)"]
  from f e2 have s: "spec_column planar_platform 1 (10018754.17, -10018754.17) = 1"
    "spec_row planar_platform 1 (10018754.17, -10018754.17) = 1"
    by simp_all
  from f h1 h2 h4 e2
  have "\<forall>l' t'. location_valid planar_platform l'
           \<and> snd (lonlat_to_mercator planar_platform (10018754.17, -10018754.17))
               \<le> snd (lonlat_to_mercator planar_platform l')
           \<and> Tile_location planar_platform False 1 l' = Inr t'
         \<longrightarrow> unat (y t') \<le> unat (y \<lparr>x = 1, y = 1, z = 1 :: uint32_t\<rparr>)"
    by simp
  from this [rule_format, of "(-10018754.17, 10018754.17)" "\<lparr>x = 0, y = 0, z = 1\<rparr>"] h3 e1
  have n: "unat (y \<lparr>x = 0, y = 0, z = 1 :: uint32_t\<rparr>) \<le> unat (y \<lparr>x = 1, y = 1, z = 1 :: uint32_t\<rparr>)"
    by (simp add: planar_platform_def)
  have g1: "platform_ok binary64_platform" by (rule binary64_platform_ok)
  have g2: "unat (30 :: uint32_t) \<le> 30" by simp
  have g3: "location_valid binary64_platform (1/3, -1/3)"
    by (simp add: binary64_platform_def)
  have u: "unat (30 :: uint32_t) = 30" by simp
  have le: "(30 :: nat) \<le> 30" by simp
  from Tile_location_formula [of binary64_platform False 30 "(1/3, -1/3)", unfolded u] g1 le g3
  have b: "\<exists>t. Tile_location binary64_platform False 30 (1/3, -1/3) = Inr t
          \<and> int (unat (x t)) = spec_column binary64_platform 30 (1/3, -1/3)
          \<and> int (unat (y t)) = spec_row binary64_platform 30 (1/3, -1/3)"
    by blast
  have a: "unat (y \<lparr>x = 0, y = 0, z = 1 :: uint32_t\<rparr>) \<le> unat (y \<lparr>x = 1, y = 1, z = 1 :: uint32_t\<rparr>)"
    by (rule n)
  from h1 h2 h3 h4 e1 e2 s a g1 g2 g3 b show ?thesis by blast
qed

text \<open>
  C8. At zoom 0 the only tile the constructor can return is \<open>(x = 0, y = 0, z = 0)\<close>,
  and on a platform that meets the assumptions it returns that tile for every valid
  location.
\<close>

theorem Tile_location_zoom_0:
  "(\<forall>t. Tile_location P ndebug 0 l = Inr t \<longrightarrow> t = \<lparr>x = 0, y = 0, z = 0\<rparr>)
   \<and> (platform_ok P \<and> location_valid P l \<longrightarrow>
        Tile_location P ndebug 0 l = Inr \<lparr>x = 0, y = 0, z = 0\<rparr>)"
proof (intro conjI impI allI)
  fix t assume t: "Tile_location P ndebug 0 l = Inr t"
  from Tile_location_Inr_shape [OF t] show "t = \<lparr>x = 0, y = 0, z = 0\<rparr>"
    by (auto simp: restrict_to_range_zero)
next
  assume a: "platform_ok P \<and> location_valid P l"
  then have ok: "platform_ok P" and loc: "location_valid P l" by simp_all
  from Tile_location_value [OF ok _ loc, of 0 ndebug]
  show "Tile_location P ndebug 0 l = Inr \<lparr>x = 0, y = 0, z = 0\<rparr>"
    by (simp add: restrict_to_range_zero)
qed

theorem Tile_location_zoom_0_witness:
  "platform_ok planar_platform
   \<and> location_valid planar_platform (-20037508.34, -20037508.34)
   \<and> Tile_location planar_platform False 0 (-20037508.34, -20037508.34) = Inr \<lparr>x = 0, y = 0, z = 0\<rparr>
   \<and> platform_ok binary64_platform
   \<and> location_valid binary64_platform (1/3, -1/3)
   \<and> Tile_location binary64_platform False 0 (1/3, -1/3) = Inr \<lparr>x = 0, y = 0, z = 0\<rparr>"
proof -
  have h1: "platform_ok planar_platform" by (rule planar_platform_ok)
  have h2: "location_valid planar_platform (-20037508.34, -20037508.34)"
    by (simp add: planar_platform_def)
  have g1: "platform_ok binary64_platform" by (rule binary64_platform_ok)
  have g2: "location_valid binary64_platform (1/3, -1/3)"
    by (simp add: binary64_platform_def)
  from Tile_location_zoom_0 [of planar_platform False "(-20037508.34, -20037508.34)"]
    Tile_location_zoom_0 [of binary64_platform False "(1/3, -1/3)"] h1 h2 g1 g2
  show ?thesis by blast
qed

text \<open>
  C9. The row of every tile the constructor returns, read as the \<^verbatim>\<open>int32_t\<close> the
  clamp returns or as the \<^verbatim>\<open>uint32_t\<close> stored, lies in \<open>[0, 2^zoom - 1]\<close>. On a
  platform that meets the assumptions, for a zoom \<open>\<le> 30\<close> and a valid location whose
  projected \<open>y\<close> is the projection maximum \<open>M\<close>, the constructor returns a tile and its
  row is 0.
\<close>

theorem Tile_location_north_limit:
  "(\<forall>t. Tile_location P ndebug zoom l = Inr t \<longrightarrow>
        0 \<le> sint (y t) \<and> sint (y t) \<le> 2 ^ unat zoom - 1 \<and> unat (y t) < 2 ^ unat zoom)
   \<and> (platform_ok P \<and> unat zoom \<le> 30 \<and> location_valid P l
        \<and> snd (lonlat_to_mercator P l) = max_coordinate_epsg3857 P \<longrightarrow>
        (\<exists>t. Tile_location P ndebug zoom l = Inr t \<and> y t = 0))"
proof (intro conjI impI allI)
  fix t assume t: "Tile_location P ndebug zoom l = Inr t"
  have zoom: "unat zoom \<le> 30" by (rule Tile_location_Inr(1) [OF t])
  from Tile_location_Inr_shape [OF t] obtain iy where
    s: "y t = restrict_to_range iy 0 (2 ^ unat zoom - 1)"
    by auto
  have b: "(0::int) \<le> 2 ^ unat zoom - 1" by simp
  from clamp_bounds [OF b, of "sint iy"]
  show "0 \<le> sint (y t)" and "sint (y t) \<le> 2 ^ unat zoom - 1"
    unfolding s sint_restrict_to_range [OF zoom] by blast+
  show "unat (y t) < 2 ^ unat zoom"
    unfolding s by (rule restrict_to_range_less [OF zoom])
next
  assume a: "platform_ok P \<and> unat zoom \<le> 30 \<and> location_valid P l
        \<and> snd (lonlat_to_mercator P l) = max_coordinate_epsg3857 P"
  then have ok: "platform_ok P" and zoom: "unat zoom \<le> 30" and loc: "location_valid P l"
    and top: "snd (lonlat_to_mercator P l) = max_coordinate_epsg3857 P"
    by simp_all
  have r0: "rnd P 0 = 0" using ok by (simp add: platform_ok_def rounded_zero)
  show "\<exists>t. Tile_location P ndebug zoom l = Inr t \<and> y t = 0"
    by (simp add: Tile_location_value [OF ok zoom loc] top r0 restrict_to_range_at_zero [OF zoom])
qed

theorem Tile_location_north_limit_witness:
  "platform_ok planar_platform \<and> unat (30 :: uint32_t) \<le> 30
   \<and> location_valid planar_platform (0, 20037508.34)
   \<and> snd (lonlat_to_mercator planar_platform (0, 20037508.34))
       = max_coordinate_epsg3857 planar_platform
   \<and> (\<exists>t. Tile_location planar_platform False 30 (0, 20037508.34) = Inr t \<and> y t = 0)
   \<and> platform_ok binary64_platform
   \<and> location_valid binary64_platform (1/3, 5378777688351703 / 268435456)
   \<and> snd (lonlat_to_mercator binary64_platform (1/3, 5378777688351703 / 268435456))
       = max_coordinate_epsg3857 binary64_platform
   \<and> (\<exists>t. Tile_location binary64_platform False 30 (1/3, 5378777688351703 / 268435456) = Inr t
          \<and> y t = 0)"
proof -
  have h1: "platform_ok planar_platform" by (rule planar_platform_ok)
  have h2: "unat (30 :: uint32_t) \<le> 30" by simp
  have h3: "location_valid planar_platform (0, 20037508.34)"
    by (simp add: planar_platform_def)
  have h4: "snd (lonlat_to_mercator planar_platform (0, 20037508.34))
       = max_coordinate_epsg3857 planar_platform"
    by (simp add: planar_platform_def)
  from Tile_location_north_limit [of planar_platform False 30 "(0, 20037508.34)"] h1 h2 h3 h4
  have "\<exists>t. Tile_location planar_platform False 30 (0, 20037508.34) = Inr t \<and> y t = 0"
    by blast
  moreover have g1: "platform_ok binary64_platform" by (rule binary64_platform_ok)
  moreover have g3: "location_valid binary64_platform (1/3, 5378777688351703 / 268435456)"
    by (simp add: binary64_platform_def)
  moreover have g4: "snd (lonlat_to_mercator binary64_platform (1/3, 5378777688351703 / 268435456))
       = max_coordinate_epsg3857 binary64_platform"
    by (simp add: binary64_platform_def)
  moreover from Tile_location_north_limit
      [of binary64_platform False 30 "(1/3, 5378777688351703 / 268435456)"] g1 h2 g3 g4
  have "\<exists>t. Tile_location binary64_platform False 30 (1/3, 5378777688351703 / 268435456) = Inr t
          \<and> y t = 0"
    by blast
  ultimately show ?thesis using h1 h2 h3 h4 by blast
qed

section \<open>Equality and order\<close>

subsection \<open>Equality\<close>

text \<open>
  C6. Two tiles are equal for \<^verbatim>\<open>operator==\<close> exactly when they agree on all three
  fields, that is when they are the same value; the relation is reflexive, symmetric and
  transitive, and tiles that differ in a field are unequal (and \<^verbatim>\<open>operator!=\<close> holds).
\<close>

theorem tile_eq_equivalence:
  "(tile_eq a b \<longleftrightarrow> a = b)
   \<and> (tile_eq a b \<longleftrightarrow> z a = z b \<and> x a = x b \<and> y a = y b)
   \<and> tile_eq a a
   \<and> (tile_eq a b \<longleftrightarrow> tile_eq b a)
   \<and> (tile_eq a b \<and> tile_eq b c \<longrightarrow> tile_eq a c)
   \<and> (z a \<noteq> z b \<or> x a \<noteq> x b \<or> y a \<noteq> y b \<longrightarrow> \<not> tile_eq a b \<and> tile_neq a b)"
  by (auto simp: tile_eq_def tile_neq_def)

theorem tile_eq_equivalence_witness:
  "tile_eq \<lparr>x = 3, y = 7, z = 5\<rparr> \<lparr>x = 3, y = 7, z = 5\<rparr>
   \<and> \<not> tile_eq \<lparr>x = 3, y = 7, z = 5\<rparr> \<lparr>x = 3, y = 8, z = 5\<rparr>
   \<and> tile_neq \<lparr>x = 3, y = 7, z = 5\<rparr> \<lparr>x = 3, y = 8, z = 5\<rparr>
   \<and> \<not> tile_eq \<lparr>x = 3, y = 7, z = 5\<rparr> \<lparr>x = 4, y = 7, z = 5\<rparr>
   \<and> \<not> tile_eq \<lparr>x = 3, y = 7, z = 5\<rparr> \<lparr>x = 3, y = 7, z = 6\<rparr>"
  using tile_eq_equivalence [of "\<lparr>x = 3, y = 7, z = 5\<rparr>" "\<lparr>x = 3, y = 7, z = 5\<rparr>" "\<lparr>x = 3, y = 7, z = 5\<rparr>"]
    tile_eq_equivalence [of "\<lparr>x = 3, y = 7, z = 5\<rparr>" "\<lparr>x = 3, y = 8, z = 5\<rparr>"]
    tile_eq_equivalence [of "\<lparr>x = 3, y = 7, z = 5\<rparr>" "\<lparr>x = 4, y = 7, z = 5\<rparr>"]
    tile_eq_equivalence [of "\<lparr>x = 3, y = 7, z = 5\<rparr>" "\<lparr>x = 3, y = 7, z = 6\<rparr>"]
  by simp

subsection \<open>Order\<close>

lemma tile_less_lex:
  "tile_less a b \<longleftrightarrow>
     z a < z b \<or> (z a = z b \<and> (x a < x b \<or> (x a = x b \<and> y a < y b)))"
  by (auto simp: tile_less_def)

text \<open>
  C7. \<^verbatim>\<open>operator<\<close> is the lexicographic order on (zoom, column, row), each
  ascending: it is irreflexive and transitive, and of two distinct tiles exactly one is
  below the other. In particular \<open>(z=5, x=3, y=7) < (z=5, x=3, y=8)\<close> and
  \<open>(z=4, x=9, y=9) < (z=5, x=0, y=0)\<close>.
\<close>

theorem tile_less_strict_total_order:
  "(tile_less a b \<longleftrightarrow>
      z a < z b \<or> (z a = z b \<and> (x a < x b \<or> (x a = x b \<and> y a < y b))))
   \<and> \<not> tile_less a a
   \<and> (tile_less a b \<and> tile_less b c \<longrightarrow> tile_less a c)
   \<and> (a \<noteq> b \<longrightarrow> (tile_less a b \<and> \<not> tile_less b a) \<or> (tile_less b a \<and> \<not> tile_less a b))
   \<and> tile_less \<lparr>x = 3, y = 7, z = 5\<rparr> \<lparr>x = 3, y = 8, z = 5\<rparr>
   \<and> tile_less \<lparr>x = 9, y = 9, z = 4\<rparr> \<lparr>x = 0, y = 0, z = 5\<rparr>"
proof -
  have irrefl: "\<not> tile_less a a" by (simp add: tile_less_lex)
  have trans: "tile_less a b \<and> tile_less b c \<longrightarrow> tile_less a c"
    by (auto simp: tile_less_lex)
  have total: "a \<noteq> b \<longrightarrow> (tile_less a b \<and> \<not> tile_less b a) \<or> (tile_less b a \<and> \<not> tile_less a b)"
    by (cases a; cases b) (auto simp: tile_less_lex)
  have ex: "tile_less \<lparr>x = 3, y = 7, z = 5\<rparr> \<lparr>x = 3, y = 8, z = 5\<rparr>"
    "tile_less \<lparr>x = 9, y = 9, z = 4\<rparr> \<lparr>x = 0, y = 0, z = 5\<rparr>"
    by (simp_all add: tile_less_def)
  show ?thesis using irrefl trans total ex tile_less_lex [of a b] by blast
qed

theorem tile_less_strict_total_order_witness:
  "tile_less \<lparr>x = 9, y = 9, z = 4\<rparr> \<lparr>x = 3, y = 7, z = 5\<rparr>
   \<and> tile_less \<lparr>x = 3, y = 7, z = 5\<rparr> \<lparr>x = 3, y = 8, z = 5\<rparr>
   \<and> tile_less \<lparr>x = 9, y = 9, z = 4\<rparr> \<lparr>x = 3, y = 8, z = 5\<rparr>
   \<and> \<lparr>x = 3, y = 7, z = 5\<rparr> \<noteq> \<lparr>x = 3, y = 8, z = 5\<rparr>
   \<and> \<not> tile_less \<lparr>x = 3, y = 8, z = 5\<rparr> \<lparr>x = 3, y = 7, z = 5\<rparr>"
  using tile_less_strict_total_order
    [of "\<lparr>x = 9, y = 9, z = 4\<rparr>" "\<lparr>x = 3, y = 7, z = 5\<rparr>" "\<lparr>x = 3, y = 8, z = 5\<rparr>"]
    tile_less_strict_total_order
    [of "\<lparr>x = 3, y = 7, z = 5\<rparr>" "\<lparr>x = 3, y = 8, z = 5\<rparr>" "\<lparr>x = 3, y = 8, z = 5\<rparr>"]
  by (simp add: tile_less_def)

end
